theory Spec2Isabelle
  imports Complex_Main
begin

section \<open>Data model\<close>

text \<open>
  The payload of the status endpoint, interface \<open>VideoStatusResponse\<close> of
  \<open>Frontend/src/services/api.ts\<close>. Optional fields are options; numbers are
  idealised as reals.
\<close>

record VideoStatusResponse =
  status :: string
  question_id :: string
  progress :: "real option"
  current_step :: "string option"
  estimated_completion :: "string option"
  video_file :: "string option"
  error :: "string option"

text \<open>
  The expression \<open>status.error || 'Video generation failed'\<close>: JavaScript's \<open>||\<close>
  yields the right operand when the left one is \<open>undefined\<close> or the empty string.
\<close>

definition error_or_default :: "VideoStatusResponse \<Rightarrow> string" where
  "error_or_default st =
     (case error st of
        None \<Rightarrow> ''Video generation failed''
      | Some e \<Rightarrow> (if e = [] then ''Video generation failed'' else e))"

section \<open>pollVideoStatus\<close>

text \<open>
  One call of \<open>getVideoStatus\<close> either returns the decoded body or throws (network
  error, non-2xx response turned into \<open>Error('API Error: ...')\<close> by \<open>request\<close>, or a
  body that does not parse). The thrown error is represented by its message.
\<close>

datatype read_result = Fulfilled VideoStatusResponse | Thrown string

text \<open>What a run of \<open>pollVideoStatus\<close> does that can be observed from outside.\<close>

datatype event =
    GetVideoStatus
  | OnProgress VideoStatusResponse
  | Resolve VideoStatusResponse
  | Reject string
  | SetTimeout real

text \<open>Line 171: \<open>Math.min(interval * Math.pow(1.5, attempts), 30000)\<close>.\<close>

definition backoffInterval :: "real \<Rightarrow> nat \<Rightarrow> real" where
  "backoffInterval interval attempts = min (interval * (3 / 2) ^ attempts) 30000"

text \<open>
  The closure \<open>poll\<close> (lines 149-175). The argument \<open>attempts\<close> is the value of the
  captured counter when \<open>poll\<close> is entered; \<open>getVideoStatus n\<close> is the result of the
  read issued when \<open>n\<close> reads have been issued before it. The result is the list of
  events from this entry of \<open>poll\<close> to the end of the run; a \<open>SetTimeout d\<close> is followed
  by what the rescheduled \<open>poll\<close> does when the timer fires. The attempt ceiling is an
  integer here (the TypeScript type is \<open>number\<close>; infinities, NaN and fractions are
  outside this model), and the delays are exact reals where the source computes in
  double precision. The callback \<open>onProgress\<close> is taken to return normally; it is
  called inside the \<open>try\<close> block, so one that throws would be handled as a failed
  read.
\<close>

function poll :: "(nat \<Rightarrow> read_result) \<Rightarrow> int \<Rightarrow> real \<Rightarrow> nat \<Rightarrow> event list" where
  "poll getVideoStatus maxAttempts interval attempts =
     GetVideoStatus #
     (case getVideoStatus attempts of
        Fulfilled st \<Rightarrow>
          OnProgress st #
          (if status st = ''completed'' then [Resolve st]
           else if status st = ''failed'' then [Reject (error_or_default st)]
           else if int (attempts + 1) \<ge> maxAttempts then [Reject ''Video generation timeout'']
           else SetTimeout interval # poll getVideoStatus maxAttempts interval (attempts + 1))
      | Thrown e \<Rightarrow>
          (if int (attempts + 1) \<ge> maxAttempts then [Reject e]
           else SetTimeout (backoffInterval interval (attempts + 1))
                # poll getVideoStatus maxAttempts interval (attempts + 1)))"
  by pat_completeness auto

termination
  by (relation "measure (\<lambda>(g, m, i, a). nat (m - int a))") auto

definition pollVideoStatus :: "(nat \<Rightarrow> read_result) \<Rightarrow> int \<Rightarrow> real \<Rightarrow> event list" where
  "pollVideoStatus getVideoStatus maxAttempts interval = poll getVideoStatus maxAttempts interval 0"

subsection \<open>Reading a run\<close>

fun is_settlement :: "event \<Rightarrow> bool" where
  "is_settlement (Resolve _) = True"
| "is_settlement (Reject _) = True"
| "is_settlement _ = False"

text \<open>The calls of \<open>resolve\<close> and \<open>reject\<close> of a run, in order.\<close>

definition settlements :: "event list \<Rightarrow> event list" where
  "settlements tr = filter is_settlement tr"

text \<open>The number of status reads of a run.\<close>

definition reads :: "event list \<Rightarrow> nat" where
  "reads tr = count_list tr GetVideoStatus"

text \<open>
  For each status read of a run, the delay of the timer that started it: the argument of
  the \<open>setTimeout\<close> whose callback issued the read, and 0 for a read that no timer
  precedes (the synchronous call \<open>poll()\<close> of line 177).
\<close>

fun read_delays :: "event list \<Rightarrow> real list" where
  "read_delays [] = []"
| "read_delays (SetTimeout d # GetVideoStatus # es) = d # read_delays es"
| "read_delays (GetVideoStatus # es) = 0 # read_delays es"
| "read_delays (e # es) = read_delays es"

subsection \<open>pollVideoStatus on the event loop\<close>

text \<open>
  The same closure, cut at its suspension points. \<open>poll\<close> runs synchronously up to
  \<open>await this.getVideoStatus(...)\<close> (\<open>poll_enter\<close>); when the read settles, the rest of
  the body runs (\<open>poll_resume\<close>), and it reads the shared counter \<open>attempts\<close> as it is
  then. The event loop delivers two kinds of stimuli: a pending timer fires, or a read
  in flight settles. The state counts the reads in flight and keeps the pending timers,
  so that overlapping reads are expressible.
\<close>

datatype stimulus = TimerFired | ReadSettled read_result

record tracker =
  attempts :: nat
  reads_in_flight :: nat
  timers :: "real list"
  settled :: "event option"
  trace :: "event list"

definition emit :: "event \<Rightarrow> tracker \<Rightarrow> tracker" where
  "emit e t = t\<lparr>trace := trace t @ [e]\<rparr>"

text \<open>\<open>resolve\<close> and \<open>reject\<close>: only the first call settles a promise.\<close>

definition settle :: "event \<Rightarrow> tracker \<Rightarrow> tracker" where
  "settle e t = emit e (t\<lparr>settled := (case settled t of None \<Rightarrow> Some e | Some s \<Rightarrow> Some s)\<rparr>)"

definition set_timeout :: "real \<Rightarrow> tracker \<Rightarrow> tracker" where
  "set_timeout d t = emit (SetTimeout d) (t\<lparr>timers := timers t @ [d]\<rparr>)"

definition poll_enter :: "tracker \<Rightarrow> tracker" where
  "poll_enter t =
     emit GetVideoStatus
       (t\<lparr>attempts := attempts t + 1, reads_in_flight := reads_in_flight t + 1\<rparr>)"

definition poll_resume :: "int \<Rightarrow> real \<Rightarrow> read_result \<Rightarrow> tracker \<Rightarrow> tracker" where
  "poll_resume maxAttempts interval r t0 =
     (let t = t0\<lparr>reads_in_flight := reads_in_flight t0 - 1\<rparr> in
      case r of
        Fulfilled st \<Rightarrow>
          (let t1 = emit (OnProgress st) t in
           if status st = ''completed'' then settle (Resolve st) t1
           else if status st = ''failed'' then settle (Reject (error_or_default st)) t1
           else if int (attempts t1) \<ge> maxAttempts
             then settle (Reject ''Video generation timeout'') t1
           else set_timeout interval t1)
      | Thrown e \<Rightarrow>
          (if int (attempts t) \<ge> maxAttempts then settle (Reject e) t
           else set_timeout (backoffInterval interval (attempts t)) t))"

fun tracker_step :: "int \<Rightarrow> real \<Rightarrow> tracker \<Rightarrow> stimulus \<Rightarrow> tracker" where
  "tracker_step maxAttempts interval t TimerFired =
     (case timers t of [] \<Rightarrow> t | d # ds \<Rightarrow> poll_enter (t\<lparr>timers := ds\<rparr>))"
| "tracker_step maxAttempts interval t (ReadSettled r) =
     (if reads_in_flight t = 0 then t else poll_resume maxAttempts interval r t)"

text \<open>The promise executor calls \<open>poll()\<close> synchronously (line 177).\<close>

definition tracker_init :: tracker where
  "tracker_init =
     poll_enter \<lparr>attempts = 0, reads_in_flight = 0, timers = [], settled = None, trace = []\<rparr>"

definition tracker_run :: "int \<Rightarrow> real \<Rightarrow> stimulus list \<Rightarrow> tracker" where
  "tracker_run maxAttempts interval ss = foldl (tracker_step maxAttempts interval) tracker_init ss"

text \<open>
  The schedule of an environment that answers every read and lets every timer fire:
  the \<open>n\<close>-th read settles with \<open>getVideoStatus n\<close>, then the pending timer (if any) fires.
\<close>

fun responsive :: "(nat \<Rightarrow> read_result) \<Rightarrow> nat \<Rightarrow> nat \<Rightarrow> stimulus list" where
  "responsive getVideoStatus a 0 = []"
| "responsive getVideoStatus a (Suc n) =
     ReadSettled (getVideoStatus a) # TimerFired # responsive getVideoStatus (Suc a) n"

section \<open>VideoGenerationProgress\<close>

text \<open>
  The polling effect of the component (lines 49-75 of
  \<open>Frontend/src/components/VideoGenerationProgress.tsx\<close>). One \<open>fetch\<close> followed by
  \<open>response.json()\<close> ends in one of four ways: \<open>fetch\<close> rejects, the response is not
  \<open>ok\<close>, \<open>json()\<close> rejects, or a body is decoded.
\<close>

datatype fetch_result = FetchRejected | NotOk | JsonRejected | Json VideoStatusResponse

datatype cevent =
    Fetch real
  | OnComplete VideoStatusResponse
  | OnError string
  | ConsoleError
  | SetInterval real
  | ClearInterval

datatype cstimulus = IntervalFired | FetchSettled fetch_result | Cleanup

text \<open>
  \<open>statusState\<close> and \<open>isPolling\<close> are the two \<open>useState\<close> cells; \<open>intervalPeriod\<close> is
  the period of the registered interval timer, if one is registered; \<open>clock\<close> is the
  nominal time, in milliseconds since the effect ran, of the turn that issued the last
  read. \<open>Fetch t\<close> records a read issued at nominal time \<open>t\<close>.
\<close>

record component =
  statusState :: "VideoStatusResponse option"
  isPolling :: bool
  intervalPeriod :: "real option"
  clock :: real
  fetches_in_flight :: nat
  events :: "cevent list"

definition pollStatus_enter :: "component \<Rightarrow> component" where
  "pollStatus_enter c =
     c\<lparr>fetches_in_flight := fetches_in_flight c + 1, events := events c @ [Fetch (clock c)]\<rparr>"

definition pollStatus_resume :: "fetch_result \<Rightarrow> component \<Rightarrow> component" where
  "pollStatus_resume r c0 =
     (let c = c0\<lparr>fetches_in_flight := fetches_in_flight c0 - 1\<rparr> in
      case r of
        FetchRejected \<Rightarrow> c\<lparr>events := events c @ [ConsoleError]\<rparr>
      | NotOk \<Rightarrow> c
      | JsonRejected \<Rightarrow> c\<lparr>events := events c @ [ConsoleError]\<rparr>
      | Json statusData \<Rightarrow>
          (let c1 = c\<lparr>statusState := Some statusData\<rparr> in
           if status statusData = ''completed''
             then c1\<lparr>isPolling := False, events := events c1 @ [OnComplete statusData]\<rparr>
           else if status statusData = ''failed''
             then c1\<lparr>isPolling := False, events := events c1 @ [OnError (error_or_default statusData)]\<rparr>
           else c1))"

text \<open>
  The effect body (lines 70-72): \<open>pollStatus()\<close>, then
  \<open>setInterval(pollStatus, 2000)\<close>.
\<close>

definition mount :: component where
  "mount =
     (let c = pollStatus_enter
                \<lparr>statusState = None, isPolling = True, intervalPeriod = None, clock = 0,
                 fetches_in_flight = 0, events = []\<rparr>
      in c\<lparr>intervalPeriod := Some 2000, events := events c @ [SetInterval 2000]\<rparr>)"

text \<open>
  A firing of the interval timer calls \<open>pollStatus\<close>; the effect's cleanup (line 74)
  clears the timer. A read that settles runs the rest of \<open>pollStatus\<close> whether or not
  the timer is still registered.
\<close>

fun component_step :: "component \<Rightarrow> cstimulus \<Rightarrow> component" where
  "component_step c IntervalFired =
     (case intervalPeriod c of
        None \<Rightarrow> c
      | Some p \<Rightarrow> pollStatus_enter (c\<lparr>clock := clock c + p\<rparr>))"
| "component_step c (FetchSettled r) =
     (if fetches_in_flight c = 0 then c else pollStatus_resume r c)"
| "component_step c Cleanup =
     (case intervalPeriod c of
        None \<Rightarrow> c
      | Some p \<Rightarrow> c\<lparr>intervalPeriod := None, events := events c @ [ClearInterval]\<rparr>)"

definition component_run :: "cstimulus list \<Rightarrow> component" where
  "component_run ss = foldl component_step mount ss"

fun is_fetch :: "cevent \<Rightarrow> bool" where
  "is_fetch (Fetch _) = True"
| "is_fetch _ = False"

fun is_terminal_callback :: "cevent \<Rightarrow> bool" where
  "is_terminal_callback (OnComplete _) = True"
| "is_terminal_callback (OnError _) = True"
| "is_terminal_callback _ = False"

definition fetches :: "cevent list \<Rightarrow> cevent list" where
  "fetches l = filter is_fetch l"

definition terminal_callbacks :: "cevent list \<Rightarrow> cevent list" where
  "terminal_callbacks l = filter is_terminal_callback l"

text \<open>A status payload with only the \<open>status\<close> and \<open>error\<close> fields set.\<close>

definition payload :: "string \<Rightarrow> string option \<Rightarrow> VideoStatusResponse" where
  "payload s e =
     \<lparr>status = s, question_id = ''q1'', progress = None, current_step = None,
      estimated_completion = None, video_file = None, error = e\<rparr>"

text \<open>
  A read result after which \<open>poll\<close> neither resolves nor takes the \<open>'failed'\<close> branch,
  and the rejection that \<open>poll\<close> performs when such a read meets the attempt ceiling.
\<close>

fun non_terminal :: "read_result \<Rightarrow> bool" where
  "non_terminal (Thrown e) = True"
| "non_terminal (Fulfilled st) = (status st \<noteq> ''completed'' \<and> status st \<noteq> ''failed'')"

fun exhausted :: "read_result \<Rightarrow> event" where
  "exhausted (Thrown e) = Reject e"
| "exhausted (Fulfilled st) = Reject ''Video generation timeout''"

text \<open>
  The schedule of a component whose status endpoint cannot be reached: every read
  ends with \<open>r\<close>, and the interval timer fires after each.
\<close>

fun unreachable :: "fetch_result \<Rightarrow> nat \<Rightarrow> cstimulus list" where
  "unreachable r 0 = []"
| "unreachable r (Suc n) = FetchSettled r # IntervalFired # unreachable r n"

text \<open>
  The number of consecutive thrown reads that end with read \<open>k\<close>: the count that a
  consecutive-failure counter, reset by every successful read, would hold after read
  \<open>k\<close>. The source keeps no such counter; the definition serves to compare it with
  \<open>attempts\<close>.
\<close>

fun consecutive_failures :: "(nat \<Rightarrow> read_result) \<Rightarrow> nat \<Rightarrow> nat" where
  "consecutive_failures getVideoStatus 0 =
     (case getVideoStatus 0 of Thrown e \<Rightarrow> 1 | Fulfilled st \<Rightarrow> 0)"
| "consecutive_failures getVideoStatus (Suc k) =
     (case getVideoStatus (Suc k) of
        Thrown e \<Rightarrow> Suc (consecutive_failures getVideoStatus k)
      | Fulfilled st \<Rightarrow> 0)"

text \<open>What holds of the tracker after any sequence of stimuli.\<close>

definition tracker_inv :: "int \<Rightarrow> tracker \<Rightarrow> bool" where
  "tracker_inv M t \<longleftrightarrow>
     reads_in_flight t + length (timers t) \<le> 1
     \<and> (settled t \<noteq> None \<longrightarrow> reads_in_flight t = 0 \<and> timers t = [])
     \<and> length (settlements (trace t)) = (if settled t = None then 0 else 1)
     \<and> reads (trace t) = attempts t
     \<and> attempts t \<le> nat (max 1 M)
     \<and> (timers t \<noteq> [] \<longrightarrow> int (attempts t) < M)"

section \<open>Runs of pollVideoStatus\<close>

declare poll.simps [simp del]

lemma poll_not_Nil: "poll g M I a \<noteq> []"
  by (subst poll.simps) simp

lemma poll_ends_settled:
  "is_settlement (last (poll g M I a)) \<and> settlements (butlast (poll g M I a)) = []"
proof (induction g M I a rule: poll.induct)
  case (1 g M I a)
  show ?case
    apply (subst (1 2) poll.simps)
    using 1 by (auto simp: settlements_def poll_not_Nil split: read_result.splits)
qed

lemma settlements_poll: "settlements (poll g M I a) = [last (poll g M I a)]"
proof -
  have "poll g M I a = butlast (poll g M I a) @ [last (poll g M I a)]"
    by (simp add: poll_not_Nil)
  then have "settlements (poll g M I a)
      = settlements (butlast (poll g M I a)) @ settlements [last (poll g M I a)]"
    by (metis filter_append settlements_def)
  then show ?thesis
    using poll_ends_settled [of g M I a] by (simp add: settlements_def)
qed


lemma poll_Cons: "\<exists>es. poll g M I a = GetVideoStatus # es"
  by (subst poll.simps) simp

lemma read_delays_timer:
  "read_delays (SetTimeout d # poll g M I a) = d # tl (read_delays (poll g M I a))"
proof -
  obtain es where "poll g M I a = GetVideoStatus # es" using poll_Cons by blast
  then show ?thesis by simp
qed

lemma read_delays_poll_unfold:
  "read_delays (poll g M I a) =
     0 # (case g a of
            Fulfilled st \<Rightarrow>
              (if status st = ''completed'' \<or> status st = ''failed'' \<or> M \<le> int (a + 1) then []
               else I # tl (read_delays (poll g M I (a + 1))))
          | Thrown e \<Rightarrow>
              (if M \<le> int (a + 1) then []
               else backoffInterval I (a + 1) # tl (read_delays (poll g M I (a + 1)))))"
  by (subst poll.simps) (simp add: read_delays_timer split: read_result.splits)

lemma reads_poll_unfold:
  "reads (poll g M I a) =
     Suc (case g a of
            Fulfilled st \<Rightarrow>
              (if status st = ''completed'' \<or> status st = ''failed'' \<or> M \<le> int (a + 1) then 0
               else reads (poll g M I (a + 1)))
          | Thrown e \<Rightarrow>
              (if M \<le> int (a + 1) then 0 else reads (poll g M I (a + 1))))"
  by (subst poll.simps) (simp add: reads_def split: read_result.splits)

lemma read_delays_poll_not_Nil: "read_delays (poll g M I a) \<noteq> []"
  by (subst read_delays_poll_unfold) simp

lemma length_read_delays_poll: "length (read_delays (poll g M I a)) = reads (poll g M I a)"
proof (induction g M I a rule: poll.induct)
  case (1 g M I a)
  have tl_len: "Suc (length (tl (read_delays (poll g M I (a + 1)))))
      = length (read_delays (poll g M I (a + 1)))"
    using read_delays_poll_not_Nil [of g M I "a + 1"] by (cases "read_delays (poll g M I (a + 1))") auto
  show ?case
  proof (cases "g a")
    case (Fulfilled st)
    then show ?thesis
      using 1(1) [OF Fulfilled] tl_len
      by (subst read_delays_poll_unfold, subst reads_poll_unfold) auto
  next
    case (Thrown e)
    then show ?thesis
      using 1(2) [OF Thrown] tl_len
      by (subst read_delays_poll_unfold, subst reads_poll_unfold) auto
  qed
qed

lemma read_delays_poll_nth:
  "k + 1 < length (read_delays (poll g M I a)) \<Longrightarrow>
   read_delays (poll g M I a) ! (k + 1) =
     (case g (a + k) of Fulfilled st \<Rightarrow> I | Thrown e \<Rightarrow> backoffInterval I (a + k + 1))"
proof (induction k arbitrary: a)
  case 0
  then show ?case
    by (subst read_delays_poll_unfold, subst (asm) read_delays_poll_unfold)
       (auto split: read_result.splits if_splits)
next
  case (Suc k)
  have ne: "read_delays (poll g M I (a + 1)) \<noteq> []"
    by (subst read_delays_poll_unfold) simp
  from Suc.prems have len: "k + 1 < length (read_delays (poll g M I (a + 1)))"
    using ne by (subst (asm) read_delays_poll_unfold) (auto split: read_result.splits if_splits)
  from Suc.prems have "read_delays (poll g M I a) ! (Suc k + 1) = read_delays (poll g M I (a + 1)) ! (k + 1)"
    using ne by (subst read_delays_poll_unfold, subst (asm) read_delays_poll_unfold)
      (auto split: read_result.splits if_splits simp: nth_tl)
  then show ?case using Suc.IH [OF len] by (simp add: ac_simps split: read_result.splits)
qed

lemma poll_exhausted_run:
  assumes "\<And>i. a \<le> i \<Longrightarrow> int i < max (int a + 1) M \<Longrightarrow> non_terminal (g i)"
  shows "last (poll g M I a) = exhausted (g (nat (max (int a + 1) M) - 1))
       \<and> reads (poll g M I a) = nat (max (int a + 1) M) - a"
  using assms
proof (induction g M I a rule: poll.induct)
  case (1 g M I a)
  have ga: "non_terminal (g a)" using 1(3) [of a] by simp
  show ?case
  proof (cases "M \<le> int (a + 1)")
    case True
    then have "nat (max (int a + 1) M) = Suc a" by (simp add: max_def) arith
    then show ?thesis using ga True
      by (subst poll.simps, subst reads_poll_unfold) (auto split: read_result.splits)
  next
    case False
    then have mx: "max (int a + 1) M = M" "max (int (a + 1) + 1) M = M" by simp_all
    have rest: "\<And>i. a + 1 \<le> i \<Longrightarrow> int i < max (int (a + 1) + 1) M \<Longrightarrow> non_terminal (g i)"
      using 1(3) mx by simp
    have IH: "last (poll g M I (a + 1)) = exhausted (g (nat (max (int (a + 1) + 1) M) - 1))
       \<and> reads (poll g M I (a + 1)) = nat (max (int (a + 1) + 1) M) - (a + 1)"
    proof (cases "g a")
      case (Fulfilled st)
      with ga have "status st \<noteq> ''completed''" "status st \<noteq> ''failed''" by simp_all
      from 1(1) [OF Fulfilled this False rest] show ?thesis .
    next
      case (Thrown e)
      from 1(2) [OF Thrown False rest] show ?thesis .
    qed
    then show ?thesis using ga False mx
      by (subst poll.simps, subst reads_poll_unfold) (auto simp: poll_not_Nil split: read_result.splits)
  qed
qed

lemma pollVideoStatus_exhausted:
  assumes "\<And>i. int i < max 1 M \<Longrightarrow> non_terminal (g i)"
  shows "settlements (pollVideoStatus g M I) = [exhausted (g (nat (max 1 M) - 1))]"
    and "last (pollVideoStatus g M I) = exhausted (g (nat (max 1 M) - 1))"
    and "reads (pollVideoStatus g M I) = nat (max 1 M)"
proof -
  have "last (poll g M I 0) = exhausted (g (nat (max (int 0 + 1) M) - 1))
       \<and> reads (poll g M I 0) = nat (max (int 0 + 1) M) - 0"
    by (rule poll_exhausted_run) (use assms in simp)
  then show "last (pollVideoStatus g M I) = exhausted (g (nat (max 1 M) - 1))"
    and "reads (pollVideoStatus g M I) = nat (max 1 M)"
    by (simp_all add: pollVideoStatus_def)
  then show "settlements (pollVideoStatus g M I) = [exhausted (g (nat (max 1 M) - 1))]"
    by (simp add: pollVideoStatus_def settlements_poll)
qed

text \<open>The run from the first read is the events before read \<open>a\<close> followed by the run from read \<open>a\<close>.\<close>

lemma poll_suffix:
  "a < reads (poll g M I 0) \<Longrightarrow> \<exists>pre. poll g M I 0 = pre @ poll g M I a \<and> reads pre = a"
proof (induction a)
  case 0
  show ?case by (rule exI [of _ "[]"]) (simp add: reads_def)
next
  case (Suc a)
  then obtain pre where pre: "poll g M I 0 = pre @ poll g M I a" "reads pre = a"
    by auto
  have app: "reads (xs @ ys) = reads xs + reads ys" for xs ys
    by (simp add: reads_def)
  from Suc.prems pre have more: "1 < reads (poll g M I a)"
    using app [of pre "poll g M I a"] by simp
  then have cont: "non_terminal (g a) \<and> \<not> M \<le> int (a + 1)"
    by (subst (asm) reads_poll_unfold) (auto split: read_result.splits if_splits)
  then obtain mid where mid: "poll g M I a = mid @ poll g M I (Suc a)" "reads mid = 1"
  proof (cases "g a")
    case (Fulfilled st)
    with cont have "poll g M I a = [GetVideoStatus, OnProgress st, SetTimeout I] @ poll g M I (Suc a)"
      by (subst poll.simps) simp
    then show ?thesis using that [of "[GetVideoStatus, OnProgress st, SetTimeout I]"]
      by (simp add: reads_def)
  next
    case (Thrown e)
    with cont have "poll g M I a
        = [GetVideoStatus, SetTimeout (backoffInterval I (a + 1))] @ poll g M I (Suc a)"
      by (subst poll.simps) simp
    then show ?thesis
      using that [of "[GetVideoStatus, SetTimeout (backoffInterval I (a + 1))]"]
      by (simp add: reads_def)
  qed
  show ?case
    by (rule exI [of _ "pre @ mid"]) (simp add: pre mid app)
qed

lemma poll_failed_read:
  assumes "g a = Fulfilled st" "status st = ''failed''"
  shows "poll g M I a = [GetVideoStatus, OnProgress st, Reject (error_or_default st)]"
  using assms by (subst poll.simps) simp

lemma pollVideoStatus_delay:
  assumes "k + 1 < reads (pollVideoStatus g M I)"
  shows "read_delays (pollVideoStatus g M I) ! (k + 1) =
     (case g k of Fulfilled st \<Rightarrow> I | Thrown e \<Rightarrow> backoffInterval I (k + 1))"
  using read_delays_poll_nth [of k g M I 0] assms
  by (simp add: pollVideoStatus_def length_read_delays_poll split: read_result.splits)

lemma pollVideoStatus_failed_read:
  assumes "a < reads (pollVideoStatus g M I)" "g a = Fulfilled st" "status st = ''failed''"
  shows "reads (pollVideoStatus g M I) = a + 1"
    and "settlements (pollVideoStatus g M I) = [Reject (error_or_default st)]"
    and "last (pollVideoStatus g M I) = Reject (error_or_default st)"
proof -
  obtain pre where pre: "poll g M I 0 = pre @ poll g M I a" "reads pre = a"
    using poll_suffix [of a g M I] assms(1) by (auto simp: pollVideoStatus_def)
  have pa: "poll g M I a = [GetVideoStatus, OnProgress st, Reject (error_or_default st)]"
    using assms(2,3) by (rule poll_failed_read)
  show "reads (pollVideoStatus g M I) = a + 1"
    using pre by (simp add: pollVideoStatus_def pa reads_def)
  show l: "last (pollVideoStatus g M I) = Reject (error_or_default st)"
    by (simp add: pollVideoStatus_def pre(1) pa)
  show "settlements (pollVideoStatus g M I) = [Reject (error_or_default st)]"
    using l by (simp add: pollVideoStatus_def settlements_poll)
qed

lemma backoffInterval_le_cap: "backoffInterval I n \<le> 30000"
  by (simp add: backoffInterval_def)

lemma backoffInterval_mono:
  assumes "0 \<le> I" "n \<le> m"
  shows "backoffInterval I n \<le> backoffInterval I m"
proof -
  have "(3 / 2 :: real) ^ n \<le> (3 / 2) ^ m"
    using assms(2) by (intro power_increasing) simp_all
  then have "I * (3 / 2) ^ n \<le> I * (3 / 2) ^ m"
    using assms(1) by (rule mult_left_mono)
  then show ?thesis
    unfolding backoffInterval_def by (rule min.mono) simp
qed

lemma consecutive_failures_all_thrown:
  "(\<And>i. i \<le> k \<Longrightarrow> \<exists>e. g i = Thrown e) \<Longrightarrow> consecutive_failures g k = k + 1"
proof (induction k)
  case 0
  then obtain e where "g 0 = Thrown e" by blast
  then show ?case by simp
next
  case (Suc k)
  then obtain e where "g (Suc k) = Thrown e" by blast
  moreover have "consecutive_failures g k = k + 1" using Suc by simp
  ultimately show ?case by simp
qed

lemma read_delays_healthy:
  assumes "\<And>i. i + 1 < reads (pollVideoStatus g M I) \<Longrightarrow> \<exists>st. g i = Fulfilled st"
  shows "read_delays (pollVideoStatus g M I) = 0 # replicate (reads (pollVideoStatus g M I) - 1) I"
proof (rule nth_equalityI)
  have pos: "0 < reads (pollVideoStatus g M I)"
    unfolding pollVideoStatus_def by (subst reads_poll_unfold) simp
  show len: "length (read_delays (pollVideoStatus g M I))
      = length (0 # replicate (reads (pollVideoStatus g M I) - 1) I)"
    using pos by (simp add: pollVideoStatus_def length_read_delays_poll)
  fix i assume i: "i < length (read_delays (pollVideoStatus g M I))"
  show "read_delays (pollVideoStatus g M I) ! i
      = (0 # replicate (reads (pollVideoStatus g M I) - 1) I) ! i"
  proof (cases i)
    case 0
    then show ?thesis
      unfolding pollVideoStatus_def by (subst read_delays_poll_unfold) simp
  next
    case (Suc k)
    with i have k: "k + 1 < reads (pollVideoStatus g M I)"
      by (simp add: pollVideoStatus_def length_read_delays_poll)
    then obtain st where "g k = Fulfilled st" using assms by blast
    then show ?thesis
      using pollVideoStatus_delay [OF k] k Suc by simp
  qed
qed

lemma hd_pollVideoStatus: "hd (pollVideoStatus g M I) = GetVideoStatus"
  unfolding pollVideoStatus_def by (subst poll.simps) simp



lemma poll_until_terminal:
  assumes "\<And>i. a \<le> i \<Longrightarrow> i < a + d \<Longrightarrow>
             \<exists>s. g i = Fulfilled s \<and> status s \<noteq> ''completed'' \<and> status s \<noteq> ''failed''"
    and "g (a + d) = Fulfilled st"
    and "status st = ''completed'' \<or> status st = ''failed''"
    and "int (a + d) < max (int a + 1) M"
  shows "reads (poll g M I a) = d + 1
       \<and> last (poll g M I a)
           = (if status st = ''completed'' then Resolve st else Reject (error_or_default st))"
  using assms
proof (induction d arbitrary: a)
  case 0
  then show ?case
    by (subst poll.simps, subst reads_poll_unfold) auto
next
  case (Suc d)
  obtain s where s: "g a = Fulfilled s" "status s \<noteq> ''completed''" "status s \<noteq> ''failed''"
    using Suc.prems(1) [of a] by auto
  from Suc.prems(4) have lt: "\<not> M \<le> int (a + 1)" by (simp add: max_def split: if_splits)
  have IH: "reads (poll g M I (Suc a)) = d + 1
       \<and> last (poll g M I (Suc a))
           = (if status st = ''completed'' then Resolve st else Reject (error_or_default st))"
  proof (rule Suc.IH)
    fix i assume "Suc a \<le> i" "i < Suc a + d"
    then show "\<exists>s. g i = Fulfilled s \<and> status s \<noteq> ''completed'' \<and> status s \<noteq> ''failed''"
      using Suc.prems(1) [of i] by simp
  next
    show "g (Suc a + d) = Fulfilled st" using Suc.prems(2) by simp
    show "status st = ''completed'' \<or> status st = ''failed''" using Suc.prems(3) .
    show "int (Suc a + d) < max (int (Suc a) + 1) M" using Suc.prems(4) by simp
  qed
  then show ?case using s lt
    by (subst poll.simps, subst reads_poll_unfold) (simp add: poll_not_Nil)
qed

text \<open>
  While every read succeeds, \<open>pollVideoStatus\<close> reads at once and then after every
  \<open>interval\<close>, and the read that reports \<open>'completed'\<close> or \<open>'failed'\<close> is the last.
\<close>

lemma pollVideoStatus_healthy_until_terminal:
  assumes "\<And>i. i < k \<Longrightarrow>
             \<exists>s. g i = Fulfilled s \<and> status s \<noteq> ''completed'' \<and> status s \<noteq> ''failed''"
    and "g k = Fulfilled st"
    and "status st = ''completed'' \<or> status st = ''failed''"
    and "int k < max 1 M"
  shows "reads (pollVideoStatus g M I) = k + 1"
    and "read_delays (pollVideoStatus g M I) = 0 # replicate k I"
    and "last (pollVideoStatus g M I)
           = (if status st = ''completed'' then Resolve st else Reject (error_or_default st))"
proof -
  have "reads (poll g M I 0) = k + 1
       \<and> last (poll g M I 0)
           = (if status st = ''completed'' then Resolve st else Reject (error_or_default st))"
    by (rule poll_until_terminal) (use assms in simp_all)
  then show r: "reads (pollVideoStatus g M I) = k + 1"
    and "last (pollVideoStatus g M I)
           = (if status st = ''completed'' then Resolve st else Reject (error_or_default st))"
    by (simp_all add: pollVideoStatus_def)
  have "read_delays (pollVideoStatus g M I)
      = 0 # replicate (reads (pollVideoStatus g M I) - 1) I"
  proof (rule read_delays_healthy)
    fix i assume "i + 1 < reads (pollVideoStatus g M I)"
    then have "i < k" using r by simp
    then show "\<exists>s. g i = Fulfilled s" using assms(1) by blast
  qed
  then show "read_delays (pollVideoStatus g M I) = 0 # replicate k I"
    using r by simp
qed

section \<open>The event-loop model of pollVideoStatus\<close>

lemma tracker_inv_init: "tracker_inv M tracker_init"
  by (simp add: tracker_inv_def tracker_init_def poll_enter_def emit_def settlements_def reads_def)

lemma tracker_inv_step: "tracker_inv M t \<Longrightarrow> tracker_inv M (tracker_step M I t s)"
proof (cases s)
  case TimerFired
  assume "tracker_inv M t"
  then show ?thesis using TimerFired
    by (auto simp: tracker_inv_def poll_enter_def emit_def settlements_def reads_def
             split: list.splits)
next
  case (ReadSettled r)
  assume inv: "tracker_inv M t"
  then have "0 < reads_in_flight t \<Longrightarrow> timers t = []"
    by (cases "timers t") (auto simp: tracker_inv_def)
  with inv show ?thesis using ReadSettled
    by (cases r)
       (auto simp: tracker_inv_def poll_resume_def emit_def settle_def set_timeout_def
                   settlements_def reads_def Let_def)
qed

lemma tracker_inv_foldl: "tracker_inv M t \<Longrightarrow> tracker_inv M (foldl (tracker_step M I) t ss)"
  by (induction ss arbitrary: t) (simp_all add: tracker_inv_step)

lemma tracker_inv_run: "tracker_inv M (tracker_run M I ss)"
  unfolding tracker_run_def by (rule tracker_inv_foldl [OF tracker_inv_init])

lemma idle_fixpoint:
  "reads_in_flight t = 0 \<Longrightarrow> timers t = [] \<Longrightarrow> foldl (tracker_step M I) t ss = t"
proof (induction ss)
  case Nil
  then show ?case by simp
next
  case (Cons s ss)
  then have "tracker_step M I t s = t" by (cases s) simp_all
  with Cons show ?case by simp
qed

lemma tl_poll:
  "tl (poll g M I a) =
     (case g a of
        Fulfilled st \<Rightarrow>
          OnProgress st #
          (if status st = ''completed'' then [Resolve st]
           else if status st = ''failed'' then [Reject (error_or_default st)]
           else if int (a + 1) \<ge> M then [Reject ''Video generation timeout'']
           else SetTimeout I # GetVideoStatus # tl (poll g M I (a + 1)))
      | Thrown e \<Rightarrow>
          (if int (a + 1) \<ge> M then [Reject e]
           else SetTimeout (backoffInterval I (a + 1)) # GetVideoStatus # tl (poll g M I (a + 1))))"
proof -
  obtain es where es: "poll g M I (Suc a) = GetVideoStatus # es"
    using poll_Cons by blast
  show ?thesis
    by (subst poll.simps) (simp add: es split: read_result.splits)
qed

lemma responsive_refines:
  assumes "reads_in_flight t = 1" "timers t = []" "attempts t = a + 1"
    and "reads (poll g M I a) \<le> n"
  shows "trace (foldl (tracker_step M I) t (responsive g a n)) = trace t @ tl (poll g M I a)"
  using assms
proof (induction n arbitrary: t a)
  case 0
  have "0 < reads (poll g M I a)" by (subst reads_poll_unfold) simp
  with 0 show ?case by simp
next
  case (Suc n)
  let ?t1 = "tracker_step M I t (ReadSettled (g a))"
  let ?t2 = "tracker_step M I ?t1 TimerFired"
  have fold: "foldl (tracker_step M I) t (responsive g a (Suc n))
      = foldl (tracker_step M I) ?t2 (responsive g (Suc a) n)" by simp
  show ?case
  proof (cases "non_terminal (g a) \<and> \<not> M \<le> int (a + 1)")
    case False
    with Suc.prems(1-3) have idle: "reads_in_flight ?t2 = 0" "timers ?t2 = []"
      by (auto simp: poll_resume_def emit_def settle_def set_timeout_def Let_def
               split: read_result.splits)
    from False Suc.prems(1-3) have tr: "trace ?t2 = trace t @ tl (poll g M I a)"
      by (subst tl_poll)
         (auto simp: poll_resume_def emit_def settle_def set_timeout_def Let_def
               split: read_result.splits)
    show ?thesis unfolding fold using idle_fixpoint [OF idle] tr by simp
  next
    case True
    with Suc.prems(1-3)
    have st: "reads_in_flight ?t2 = 1" "timers ?t2 = []" "attempts ?t2 = Suc a + 1"
      by (auto simp: poll_resume_def poll_enter_def emit_def settle_def set_timeout_def Let_def
               split: read_result.splits)
    from True Suc.prems(1-3)
    have tr: "trace ?t2 @ tl (poll g M I (Suc a)) = trace t @ tl (poll g M I a)"
      by (subst (2) tl_poll)
         (auto simp: poll_resume_def poll_enter_def emit_def settle_def set_timeout_def Let_def
               split: read_result.splits)
    from True Suc.prems(4) have "reads (poll g M I (Suc a)) \<le> n"
      by (subst (asm) reads_poll_unfold) (auto split: read_result.splits)
    from Suc.IH [OF st this] show ?thesis unfolding fold using tr by simp
  qed
qed

text \<open>
  Under the responsive schedule the event-loop model produces exactly the run computed
  by \<open>poll\<close>: the two readings of the closure agree.
\<close>

lemma tracker_run_responsive:
  assumes "reads (pollVideoStatus g M I) \<le> n"
  shows "trace (tracker_run M I (responsive g 0 n)) = pollVideoStatus g M I"
proof -
  obtain es where es: "poll g M I 0 = GetVideoStatus # es" using poll_Cons by blast
  have "trace (foldl (tracker_step M I) tracker_init (responsive g 0 n))
      = trace tracker_init @ tl (poll g M I 0)"
    by (rule responsive_refines)
       (use assms in \<open>simp_all add: tracker_init_def poll_enter_def emit_def pollVideoStatus_def\<close>)
  then show ?thesis
    by (simp add: tracker_run_def pollVideoStatus_def es tracker_init_def poll_enter_def emit_def)
qed


text \<open>
  \<open>pollVideoStatus\<close> calls \<open>resolve\<close> or \<open>reject\<close> exactly
  once, as the last thing it does, and under every order of stimuli at most once, with
  no read in flight and no timer pending afterwards.
\<close>

lemma pollVideoStatus_settles_once:
  "settlements (pollVideoStatus g M I) = [last (pollVideoStatus g M I)]
   \<and> settlements (butlast (pollVideoStatus g M I)) = []
   \<and> length (settlements (trace (tracker_run M I ts))) \<le> 1
   \<and> (settled (tracker_run M I ts) \<noteq> None \<longrightarrow>
        reads_in_flight (tracker_run M I ts) = 0 \<and> timers (tracker_run M I ts) = [])"
  using tracker_inv_run [of M I ts] poll_ends_settled [of g M I 0]
  by (simp add: tracker_inv_def pollVideoStatus_def settlements_poll)

section \<open>Runs of VideoGenerationProgress\<close>

lemma component_step_settled_fetches:
  "fetches (events (component_step c (FetchSettled r))) = fetches (events c)"
  by (cases r) (auto simp: pollStatus_resume_def fetches_def Let_def)

lemma component_step_settled_timer:
  "intervalPeriod (component_step c (FetchSettled r)) = intervalPeriod c
   \<and> clock (component_step c (FetchSettled r)) = clock c"
  by (cases r) (auto simp: pollStatus_resume_def Let_def)

lemma component_run_snoc: "component_run (ss @ [s]) = component_step (component_run ss) s"
  by (simp add: component_run_def)

lemma component_run_fetches:
  "Cleanup \<notin> set ss \<Longrightarrow>
   intervalPeriod (component_run ss) = Some 2000
   \<and> clock (component_run ss) = 2000 * real (count_list ss IntervalFired)
   \<and> fetches (events (component_run ss))
       = map (\<lambda>k. Fetch (2000 * real k)) [0..<Suc (count_list ss IntervalFired)]"
proof (induction ss rule: rev_induct)
  case Nil
  show ?case
    by (simp add: component_run_def mount_def pollStatus_enter_def fetches_def)
next
  case (snoc s ss)
  then have IH: "intervalPeriod (component_run ss) = Some 2000"
    "clock (component_run ss) = 2000 * real (count_list ss IntervalFired)"
    "fetches (events (component_run ss))
       = map (\<lambda>k. Fetch (2000 * real k)) [0..<Suc (count_list ss IntervalFired)]"
    by simp_all
  show ?case
  proof (cases s)
    case IntervalFired
    then show ?thesis using IH
      by (simp add: component_run_snoc pollStatus_enter_def fetches_def algebra_simps)
  next
    case (FetchSettled r)
    then show ?thesis
      using IH component_step_settled_fetches [of "component_run ss" r]
        component_step_settled_timer [of "component_run ss" r]
      by (simp add: component_run_snoc)
  next
    case Cleanup
    with snoc.prems show ?thesis by simp
  qed
qed

lemma count_unreachable: "count_list (unreachable r n) IntervalFired = n"
  by (induction n) simp_all

lemma Cleanup_unreachable: "Cleanup \<notin> set (unreachable r n)"
  by (induction n) simp_all

lemma component_step_failure:
  assumes "r = FetchRejected \<or> r = NotOk \<or> r = JsonRejected"
  shows "statusState (component_step c (FetchSettled r)) = statusState c"
    and "isPolling (component_step c (FetchSettled r)) = isPolling c"
    and "terminal_callbacks (events (component_step c (FetchSettled r))) = terminal_callbacks (events c)"
  using assms by (auto simp: pollStatus_resume_def terminal_callbacks_def Let_def)

lemma foldl_unreachable_quiet:
  assumes "r = FetchRejected \<or> r = NotOk \<or> r = JsonRejected"
  shows "statusState (foldl component_step c (unreachable r n)) = statusState c
   \<and> isPolling (foldl component_step c (unreachable r n)) = isPolling c
   \<and> terminal_callbacks (events (foldl component_step c (unreachable r n)))
       = terminal_callbacks (events c)"
proof (induction n arbitrary: c)
  case 0
  show ?case by simp
next
  case (Suc n)
  let ?c1 = "component_step c (FetchSettled r)"
  let ?c2 = "component_step ?c1 IntervalFired"
  have "statusState ?c2 = statusState ?c1 \<and> isPolling ?c2 = isPolling ?c1
      \<and> terminal_callbacks (events ?c2) = terminal_callbacks (events ?c1)"
    by (cases "intervalPeriod ?c1") (simp_all add: pollStatus_enter_def terminal_callbacks_def)
  then show ?case
    using Suc [of ?c2] component_step_failure [OF assms, of c] by simp
qed

lemma component_run_unreachable:
  assumes "r = FetchRejected \<or> r = NotOk \<or> r = JsonRejected"
  shows "fetches (events (component_run (unreachable r n))) = map (\<lambda>k. Fetch (2000 * real k)) [0..<Suc n]"
    and "intervalPeriod (component_run (unreachable r n)) = Some 2000"
    and "terminal_callbacks (events (component_run (unreachable r n))) = []"
    and "statusState (component_run (unreachable r n)) = None"
proof -
  show "fetches (events (component_run (unreachable r n))) = map (\<lambda>k. Fetch (2000 * real k)) [0..<Suc n]"
    and "intervalPeriod (component_run (unreachable r n)) = Some 2000"
    using component_run_fetches [OF Cleanup_unreachable, of r n] by (simp_all add: count_unreachable)
  show "terminal_callbacks (events (component_run (unreachable r n))) = []"
    and "statusState (component_run (unreachable r n)) = None"
    using foldl_unreachable_quiet [OF assms, of mount n]
    by (simp_all add: component_run_def mount_def pollStatus_enter_def terminal_callbacks_def)
qed

lemma component_in_flight_replicate:
  "fetches_in_flight (component_run (replicate n IntervalFired)) = n + 1
   \<and> intervalPeriod (component_run (replicate n IntervalFired)) = Some 2000"
proof (induction n)
  case 0
  show ?case by (simp add: component_run_def mount_def pollStatus_enter_def)
next
  case (Suc n)
  have "replicate (Suc n) IntervalFired = replicate n IntervalFired @ [IntervalFired]"
    by (simp add: replicate_append_same)
  then show ?case using Suc
    by (simp add: component_run_snoc pollStatus_enter_def del: replicate_Suc)
qed

lemma events_mount: "events mount = [Fetch 0, SetInterval 2000]"
  by (simp add: mount_def pollStatus_enter_def)

section \<open>The claims\<close>

text \<open>
  C1, on the code: \<open>pollStatus\<close> calls \<open>setIsPolling(false)\<close> when it sees
  \<open>'completed'\<close> or \<open>'failed'\<close>, but the polling effect never reads \<open>isPolling\<close> and the
  timer stays registered. When the timer fires after a \<open>'completed'\<close> status has been
  observed, a further read is issued and \<open>onComplete\<close> is called a second time; and
  when two reads overlap, the second calls \<open>onComplete\<close> again even after the effect
  has been cleaned up.
\<close>

theorem C1_component_notifies_twice:
  "terminal_callbacks (events (component_run
      [FetchSettled (Json (payload ''completed'' None)), IntervalFired,
       FetchSettled (Json (payload ''completed'' None))]))
     = [OnComplete (payload ''completed'' None), OnComplete (payload ''completed'' None)]
   \<and> events (component_run
      [FetchSettled (Json (payload ''completed'' None)), IntervalFired,
       FetchSettled (Json (payload ''completed'' None))])
     = [Fetch 0, SetInterval 2000, OnComplete (payload ''completed'' None), Fetch 2000,
        OnComplete (payload ''completed'' None)]
   \<and> isPolling (component_run [FetchSettled (Json (payload ''completed'' None))]) = False
   \<and> intervalPeriod (component_run [FetchSettled (Json (payload ''completed'' None))])
     = Some 2000
   \<and> events (component_run
      [IntervalFired, FetchSettled (Json (payload ''completed'' None)), Cleanup,
       FetchSettled (Json (payload ''completed'' None))])
     = [Fetch 0, SetInterval 2000, Fetch 2000, OnComplete (payload ''completed'' None),
        ClearInterval, OnComplete (payload ''completed'' None)]"
  by (simp add: component_run_def mount_def pollStatus_enter_def pollStatus_resume_def
        terminal_callbacks_def payload_def Let_def)

text \<open>
  C2, as amended: when the first \<open>max 1 maxAttempts\<close> reads all throw, the run issues
  exactly that many reads and ends by rejecting with the error thrown by the last of
  them; nothing follows the rejection.
\<close>

theorem C2_ceiling_rejects_with_last_transport_error:
  assumes "\<And>i. int i < max 1 maxAttempts \<Longrightarrow> getVideoStatus i = Thrown (err i)"
  shows "settlements (pollVideoStatus getVideoStatus maxAttempts interval)
           = [Reject (err (nat (max 1 maxAttempts) - 1))]
       \<and> last (pollVideoStatus getVideoStatus maxAttempts interval)
           = Reject (err (nat (max 1 maxAttempts) - 1))
       \<and> reads (pollVideoStatus getVideoStatus maxAttempts interval) = nat (max 1 maxAttempts)"
proof -
  have nt: "\<And>i. int i < max 1 maxAttempts \<Longrightarrow> non_terminal (getVideoStatus i)"
    using assms by simp
  have "int (nat (max 1 maxAttempts) - 1) < max 1 maxAttempts" by simp
  then have "exhausted (getVideoStatus (nat (max 1 maxAttempts) - 1))
      = Reject (err (nat (max 1 maxAttempts) - 1))"
    using assms by simp
  then show ?thesis
    using pollVideoStatus_exhausted [OF nt, where I = interval] by simp
qed

theorem C2_ceiling_rejects_with_last_transport_error_witness:
  "settlements (pollVideoStatus (\<lambda>n. Thrown ''Failed to fetch'') 60 5000)
     = [Reject ''Failed to fetch'']
   \<and> last (pollVideoStatus (\<lambda>n. Thrown ''Failed to fetch'') 60 5000) = Reject ''Failed to fetch''
   \<and> reads (pollVideoStatus (\<lambda>n. Thrown ''Failed to fetch'') 60 5000) = 60"
  using C2_ceiling_rejects_with_last_transport_error
    [of 60 "\<lambda>n. Thrown ''Failed to fetch''" "\<lambda>n. ''Failed to fetch''" 5000]
  by simp

theorem C2_counterexample:
  "reads (pollVideoStatus (\<lambda>n. Thrown ''API Error: 503 Service Unavailable'') 60 5000) = 60
   \<and> settlements (pollVideoStatus (\<lambda>n. Thrown ''API Error: 503 Service Unavailable'') 60 5000)
       = [Reject ''API Error: 503 Service Unavailable'']
   \<and> settlements (pollVideoStatus (\<lambda>n. Thrown ''API Error: 503 Service Unavailable'') 60 5000)
       \<noteq> [Reject ''Video generation timeout'']"
  using pollVideoStatus_exhausted [of 60 "\<lambda>n. Thrown ''API Error: 503 Service Unavailable''" 5000]
  by simp

text \<open>
  C3, as amended: after a fulfilled read that does not end the run, the next read is
  scheduled after exactly the base interval, whatever failed before it.
  \<open>pollVideoStatus\<close> keeps no consecutive-failure counter: after a thrown read the
  delay is \<open>min (interval * 1.5 ^ attempts) 30000\<close> with \<open>attempts\<close> the number of reads
  issued so far, which no success resets, so the delay depends on the position of the
  read in the run and not on how the earlier reads ended.
\<close>

theorem C3_base_interval_after_success:
  "(k + 1 < reads (pollVideoStatus g M I) \<and> g k = Fulfilled st \<longrightarrow>
      read_delays (pollVideoStatus g M I) ! (k + 1) = I)
   \<and> (k + 1 < reads (pollVideoStatus g M I) \<and> g k = Thrown e \<longrightarrow>
      read_delays (pollVideoStatus g M I) ! (k + 1) = backoffInterval I (k + 1))
   \<and> (k + 1 < reads (pollVideoStatus g M I) \<and> k + 1 < reads (pollVideoStatus g' M I)
        \<and> g k = Thrown e \<and> g' k = Thrown e' \<longrightarrow>
      read_delays (pollVideoStatus g M I) ! (k + 1)
        = read_delays (pollVideoStatus g' M I) ! (k + 1))"
proof (intro conjI impI)
  assume "k + 1 < reads (pollVideoStatus g M I) \<and> g k = Fulfilled st"
  then show "read_delays (pollVideoStatus g M I) ! (k + 1) = I"
    using pollVideoStatus_delay [of k g M I] by simp
next
  assume "k + 1 < reads (pollVideoStatus g M I) \<and> g k = Thrown e"
  then show "read_delays (pollVideoStatus g M I) ! (k + 1) = backoffInterval I (k + 1)"
    using pollVideoStatus_delay [of k g M I] by simp
next
  assume "k + 1 < reads (pollVideoStatus g M I) \<and> k + 1 < reads (pollVideoStatus g' M I)
        \<and> g k = Thrown e \<and> g' k = Thrown e'"
  then show "read_delays (pollVideoStatus g M I) ! (k + 1)
        = read_delays (pollVideoStatus g' M I) ! (k + 1)"
    using pollVideoStatus_delay [of k g M I] pollVideoStatus_delay [of k g' M I] by simp
qed

theorem C3_base_interval_after_success_witness:
  "read_delays (pollVideoStatus
       (\<lambda>n. if n = 2 then Fulfilled (payload ''running'' None) else Thrown ''Failed to fetch'')
       60 5000) ! 3 = 5000
   \<and> read_delays (pollVideoStatus
       (\<lambda>n. if n = 2 then Fulfilled (payload ''running'' None) else Thrown ''Failed to fetch'')
       60 5000) ! 4 = backoffInterval 5000 4
   \<and> read_delays (pollVideoStatus
       (\<lambda>n. if n = 2 then Fulfilled (payload ''running'' None) else Thrown ''Failed to fetch'')
       60 5000) ! 4
     = read_delays (pollVideoStatus (\<lambda>n. Thrown ''Failed to fetch'') 60 5000) ! 4"
proof -
  let ?g = "\<lambda>n::nat. if n = 2 then Fulfilled (payload ''running'' None)
                     else Thrown ''Failed to fetch''"
  let ?h = "\<lambda>n::nat. Thrown ''Failed to fetch''"
  have r: "reads (pollVideoStatus ?g 60 5000) = 60" "reads (pollVideoStatus ?h 60 5000) = 60"
    using pollVideoStatus_exhausted(3) [of 60 ?g 5000]
      pollVideoStatus_exhausted(3) [of 60 ?h 5000] by (simp_all add: payload_def)
  show ?thesis
    using r
      C3_base_interval_after_success
        [of 2 ?g 60 5000 "payload ''running'' None" "''Failed to fetch''" ?h "''Failed to fetch''"]
      C3_base_interval_after_success
        [of 3 ?g 60 5000 "payload ''running'' None" "''Failed to fetch''" ?h "''Failed to fetch''"]
    by simp
qed

theorem C3_counterexample:
  "read_delays (pollVideoStatus
       (\<lambda>n. if n = 2 then Fulfilled (payload ''running'' None) else Thrown ''Failed to fetch'')
       60 5000) ! 3 = 5000
   \<and> read_delays (pollVideoStatus
       (\<lambda>n. if n = 2 then Fulfilled (payload ''running'' None) else Thrown ''Failed to fetch'')
       60 5000) ! 4 = 50625 / 2
   \<and> read_delays (pollVideoStatus (\<lambda>n. Thrown ''Failed to fetch'') 60 5000) ! 1 = 7500"
proof -
  let ?g = "\<lambda>n::nat. if n = 2 then Fulfilled (payload ''running'' None)
                     else Thrown ''Failed to fetch''"
  let ?h = "\<lambda>n::nat. Thrown ''Failed to fetch''"
  have r: "reads (pollVideoStatus ?g 60 5000) = 60" "reads (pollVideoStatus ?h 60 5000) = 60"
    using pollVideoStatus_exhausted(3) [of 60 ?g 5000]
      pollVideoStatus_exhausted(3) [of 60 ?h 5000] by (simp_all add: payload_def)
  show ?thesis
    using r pollVideoStatus_delay [of 2 ?g 60 5000] pollVideoStatus_delay [of 3 ?g 60 5000]
      pollVideoStatus_delay [of 0 ?h 60 5000]
    by (simp add: backoffInterval_def power_divide)
qed

text \<open>
  C4, as amended: a read that reports \<open>'failed'\<close> ends the run of \<open>pollVideoStatus\<close>
  at once, with no further read, and the promise is rejected with the service's error
  string when that string is present and not empty, and with
  \<open>'Video generation failed'\<close> when it is absent or empty; the component passes the
  same message to \<open>onError\<close>.
\<close>

theorem C4_reported_failure_ends_the_run:
  "(a < reads (pollVideoStatus g M I) \<and> g a = Fulfilled st \<and> status st = ''failed'' \<longrightarrow>
      reads (pollVideoStatus g M I) = a + 1
      \<and> settlements (pollVideoStatus g M I) = [Reject (error_or_default st)]
      \<and> last (pollVideoStatus g M I) = Reject (error_or_default st))
   \<and> (0 < fetches_in_flight c \<and> status st = ''failed'' \<longrightarrow>
        events (component_step c (FetchSettled (Json st)))
          = events c @ [OnError (error_or_default st)])
   \<and> (error st = Some e \<and> e \<noteq> [] \<longrightarrow> error_or_default st = e)
   \<and> (error st = None \<or> error st = Some [] \<longrightarrow>
        error_or_default st = ''Video generation failed'')"
proof (intro conjI impI)
  assume h: "a < reads (pollVideoStatus g M I) \<and> g a = Fulfilled st \<and> status st = ''failed''"
  then show "reads (pollVideoStatus g M I) = a + 1"
    using pollVideoStatus_failed_read(1) [of a g M I st] by simp
  from h show "settlements (pollVideoStatus g M I) = [Reject (error_or_default st)]"
    using pollVideoStatus_failed_read(2) [of a g M I st] by simp
  from h show "last (pollVideoStatus g M I) = Reject (error_or_default st)"
    using pollVideoStatus_failed_read(3) [of a g M I st] by simp
next
  assume "0 < fetches_in_flight c \<and> status st = ''failed''"
  then show "events (component_step c (FetchSettled (Json st)))
          = events c @ [OnError (error_or_default st)]"
    by (simp add: pollStatus_resume_def Let_def)
next
  assume "error st = Some e \<and> e \<noteq> []"
  then show "error_or_default st = e" by (simp add: error_or_default_def)
next
  assume "error st = None \<or> error st = Some []"
  then show "error_or_default st = ''Video generation failed''"
    by (auto simp: error_or_default_def)
qed

theorem C4_reported_failure_ends_the_run_witness:
  "reads (pollVideoStatus
      (\<lambda>n. if n = 0 then Fulfilled (payload ''running'' None)
            else Fulfilled (payload ''failed'' (Some ''render engine crashed''))) 60 5000) = 2
   \<and> settlements (pollVideoStatus
      (\<lambda>n. if n = 0 then Fulfilled (payload ''running'' None)
            else Fulfilled (payload ''failed'' (Some ''render engine crashed''))) 60 5000)
       = [Reject ''render engine crashed'']
   \<and> events (component_step mount
        (FetchSettled (Json (payload ''failed'' (Some ''render engine crashed'')))))
       = [Fetch 0, SetInterval 2000, OnError ''render engine crashed'']
   \<and> error_or_default (payload ''failed'' None) = ''Video generation failed''"
proof -
  let ?g = "\<lambda>n::nat. if n = 0 then Fulfilled (payload ''running'' None)
            else Fulfilled (payload ''failed'' (Some ''render engine crashed''))"
  have r: "1 < reads (pollVideoStatus ?g 60 5000)"
    by (simp add: pollVideoStatus_def reads_def poll.simps payload_def)
  have e: "error_or_default (payload ''failed'' (Some ''render engine crashed''))
      = ''render engine crashed''"
    by (simp add: error_or_default_def payload_def)
  have m: "0 < fetches_in_flight mount" "events mount = [Fetch 0, SetInterval 2000]"
    by (simp_all add: mount_def pollStatus_enter_def)
  show ?thesis
    using r e m
      C4_reported_failure_ends_the_run
        [of 1 ?g 60 5000 "payload ''failed'' (Some ''render engine crashed'')" mount
            "''render engine crashed''"]
      C4_reported_failure_ends_the_run
        [of 0 ?g 60 5000 "payload ''failed'' None" mount "''x''"]
    by (simp add: payload_def)
qed

theorem C4_counterexample:
  "error (payload ''failed'' (Some '''')) = Some ''''
   \<and> pollVideoStatus (\<lambda>n. Fulfilled (payload ''failed'' (Some ''''))) 60 5000
       = [GetVideoStatus, OnProgress (payload ''failed'' (Some '''')),
          Reject ''Video generation failed'']
   \<and> Reject ''Video generation failed'' \<noteq> Reject ''''"
  by (simp add: pollVideoStatus_def poll.simps payload_def error_or_default_def)




text \<open>
  C6, as amended: in \<open>pollVideoStatus\<close> at most one read is in flight at any time, and
  a timer for the next read is pending only when none is: under every order of
  stimuli, reads in flight and pending timers together never exceed one. The interval
  timer of \<open>VideoGenerationProgress\<close> issues a read on every firing whether or not the
  earlier reads have settled, so \<open>n\<close> firings during which nothing settles leave
  \<open>n + 1\<close> reads in flight. In both, the events of a stimulus are appended to those
  already delivered.
\<close>

theorem C6_only_pollVideoStatus_reads_one_at_a_time:
  "reads_in_flight (tracker_run M I ts) + length (timers (tracker_run M I ts)) \<le> 1
   \<and> fetches_in_flight (component_run (replicate n IntervalFired)) = n + 1
   \<and> (\<exists>es. trace (tracker_run M I (ts @ [t])) = trace (tracker_run M I ts) @ es)
   \<and> (\<exists>es. events (component_run (ss @ [s])) = events (component_run ss) @ es)"
proof (intro conjI)
  show "reads_in_flight (tracker_run M I ts) + length (timers (tracker_run M I ts)) \<le> 1"
    using tracker_inv_run [of M I ts] by (simp add: tracker_inv_def)
  show "fetches_in_flight (component_run (replicate n IntervalFired)) = n + 1"
    using component_in_flight_replicate [of n] by simp
  have "\<exists>es. trace (tracker_step M I x t) = trace x @ es" for x
  proof (cases t)
    case TimerFired
    then show ?thesis
      by (cases "timers x") (simp_all add: poll_enter_def emit_def)
  next
    case (ReadSettled r)
    then show ?thesis
      by (cases r)
         (simp_all add: poll_resume_def emit_def settle_def set_timeout_def Let_def)
  qed
  then show "\<exists>es. trace (tracker_run M I (ts @ [t])) = trace (tracker_run M I ts) @ es"
    by (simp add: tracker_run_def)
  have "\<exists>es. events (component_step x s) = events x @ es" for x
  proof (cases s)
    case IntervalFired
    then show ?thesis
      by (cases "intervalPeriod x") (simp_all add: pollStatus_enter_def)
  next
    case (FetchSettled r)
    then show ?thesis
      by (cases r) (simp_all add: pollStatus_resume_def Let_def)
  next
    case Cleanup
    then show ?thesis
      by (cases "intervalPeriod x") simp_all
  qed
  then show "\<exists>es. events (component_run (ss @ [s])) = events (component_run ss) @ es"
    by (simp add: component_run_snoc)
qed

theorem C6_counterexample:
  "fetches_in_flight (component_run [IntervalFired]) = 2
   \<and> events (component_run [IntervalFired]) = [Fetch 0, SetInterval 2000, Fetch 2000]"
  by (simp add: component_run_def mount_def pollStatus_enter_def)

text \<open>
  C7, on the code: both trackers read at once when tracking starts, and
  \<open>pollVideoStatus\<close> then reads after every \<open>interval\<close> until the read that reports a
  terminal status, which is its last. \<open>VideoGenerationProgress\<close> reads every 2000 ms
  but does not stop at a terminal status: after the read at 0 ms has been answered
  \<open>'completed'\<close> (or \<open>'failed'\<close>), \<open>isPolling\<close> is false and the status is stored, yet
  the timer is still registered and further reads are issued at 2000 ms and 4000 ms.
\<close>

theorem C7_component_reads_on_after_terminal_status:
  "statusState (component_run [FetchSettled (Json (payload ''completed'' None))])
     = Some (payload ''completed'' None)
   \<and> isPolling (component_run [FetchSettled (Json (payload ''completed'' None))]) = False
   \<and> fetches (events (component_run
        [FetchSettled (Json (payload ''completed'' None)), IntervalFired,
         FetchSettled (Json (payload ''completed'' None)), IntervalFired]))
     = [Fetch 0, Fetch 2000, Fetch 4000]
   \<and> fetches (events (component_run
        [FetchSettled (Json (payload ''failed'' (Some ''render engine crashed''))),
         IntervalFired]))
     = [Fetch 0, Fetch 2000]
   \<and> read_delays (pollVideoStatus
        (\<lambda>n. if n < 2 then Fulfilled (payload ''running'' None)
              else Fulfilled (payload ''completed'' None)) 60 5000)
     = [0, 5000, 5000]"
  by (simp add: component_run_def mount_def pollStatus_enter_def pollStatus_resume_def
        fetches_def payload_def Let_def pollVideoStatus_def poll.simps)

text \<open>
  C8, as amended: the delay before the retry that follows a thrown read is
  \<open>min (interval * 1.5 ^ attempts) 30000\<close>, where \<open>attempts\<close> is the number of reads
  issued so far, successful ones included; it equals the number of consecutive
  failures when every read so far has thrown. The delay never exceeds 30000, and for
  a non-negative \<open>interval\<close> it does not decrease as \<open>attempts\<close> grows.
\<close>

theorem C8_backoff_uses_attempts:
  "(k + 1 < reads (pollVideoStatus g M I) \<and> g k = Thrown e \<longrightarrow>
      read_delays (pollVideoStatus g M I) ! (k + 1) = min (I * (3 / 2) ^ (k + 1)) 30000)
   \<and> ((\<forall>i \<le> k. \<exists>e. g i = Thrown e) \<longrightarrow> consecutive_failures g k = k + 1)
   \<and> backoffInterval I n \<le> 30000
   \<and> (0 \<le> I \<and> n \<le> m \<longrightarrow> backoffInterval I n \<le> backoffInterval I m)"
proof (intro conjI impI)
  assume "k + 1 < reads (pollVideoStatus g M I) \<and> g k = Thrown e"
  then show "read_delays (pollVideoStatus g M I) ! (k + 1) = min (I * (3 / 2) ^ (k + 1)) 30000"
    using pollVideoStatus_delay [of k g M I] by (simp add: backoffInterval_def)
next
  assume "\<forall>i \<le> k. \<exists>e. g i = Thrown e"
  then show "consecutive_failures g k = k + 1"
    by (intro consecutive_failures_all_thrown) simp
next
  show "backoffInterval I n \<le> 30000" by (rule backoffInterval_le_cap)
next
  assume "0 \<le> I \<and> n \<le> m"
  then show "backoffInterval I n \<le> backoffInterval I m"
    using backoffInterval_mono by simp
qed

theorem C8_backoff_uses_attempts_witness:
  "read_delays (pollVideoStatus (\<lambda>n. Thrown ''Failed to fetch'') 60 5000) ! 3 = 16875
   \<and> consecutive_failures (\<lambda>n. Thrown ''Failed to fetch'') 2 = 3
   \<and> backoffInterval 5000 3 \<le> backoffInterval 5000 4"
proof -
  have r: "reads (pollVideoStatus (\<lambda>n. Thrown ''Failed to fetch'') 60 5000) = 60"
    using pollVideoStatus_exhausted(3) [of 60 "\<lambda>n. Thrown ''Failed to fetch''" 5000] by simp
  show ?thesis
    using r C8_backoff_uses_attempts
      [of 2 "\<lambda>n. Thrown ''Failed to fetch''" 60 5000 "''Failed to fetch''" 3 4]
    by (simp add: power_divide)
qed

theorem C8_counterexample:
  "consecutive_failures
     (\<lambda>n. if n < 2 then Fulfilled (payload ''running'' None) else Thrown ''Failed to fetch'') 2 = 1
   \<and> read_delays (pollVideoStatus
       (\<lambda>n. if n < 2 then Fulfilled (payload ''running'' None) else Thrown ''Failed to fetch'')
       60 5000) ! 3 = 16875
   \<and> min (5000 * (3 / 2) ^ 1) 30000 = (7500 :: real)"
proof -
  let ?g = "\<lambda>n::nat. if n < 2 then Fulfilled (payload ''running'' None)
                     else Thrown ''Failed to fetch''"
  have "reads (pollVideoStatus ?g 60 5000) = 60"
    using pollVideoStatus_exhausted(3) [of 60 ?g 5000] by (simp add: payload_def)
  then have "read_delays (pollVideoStatus ?g 60 5000) ! (2 + 1) = backoffInterval 5000 (2 + 1)"
    by (subst pollVideoStatus_delay) simp_all
  moreover have "consecutive_failures ?g 2 = 1"
    by (simp add: numeral_2_eq_2)
  ultimately show ?thesis by (simp add: backoffInterval_def power_divide)
qed

text \<open>
  C9: the counter \<open>attempts\<close> grows on every poll, whether the read succeeds or fails:
  a run whose first \<open>max 1 maxAttempts\<close> reads are all non-terminal (thrown, or fulfilled
  with a status other than \<open>'completed'\<close> and \<open>'failed'\<close>) issues exactly that many
  reads. When all of them are fulfilled, the promise is rejected with
  \<open>'Video generation timeout'\<close> although no read ever failed.
\<close>

theorem C9_ceiling_counts_successful_reads:
  "((\<forall>i. int i < max 1 maxAttempts \<longrightarrow> non_terminal (getVideoStatus i)) \<longrightarrow>
      reads (pollVideoStatus getVideoStatus maxAttempts interval) = nat (max 1 maxAttempts))
   \<and> ((\<forall>i. int i < max 1 maxAttempts \<longrightarrow>
          (\<exists>st. getVideoStatus i = Fulfilled st \<and> status st \<noteq> ''completed''
                \<and> status st \<noteq> ''failed'')) \<longrightarrow>
      settlements (pollVideoStatus getVideoStatus maxAttempts interval)
        = [Reject ''Video generation timeout'']
      \<and> last (pollVideoStatus getVideoStatus maxAttempts interval)
        = Reject ''Video generation timeout''
      \<and> reads (pollVideoStatus getVideoStatus maxAttempts interval) = nat (max 1 maxAttempts))"
proof (intro conjI impI)
  assume "\<forall>i. int i < max 1 maxAttempts \<longrightarrow> non_terminal (getVideoStatus i)"
  then show "reads (pollVideoStatus getVideoStatus maxAttempts interval) = nat (max 1 maxAttempts)"
    by (intro pollVideoStatus_exhausted) simp
next
  assume ok: "\<forall>i. int i < max 1 maxAttempts \<longrightarrow>
          (\<exists>st. getVideoStatus i = Fulfilled st \<and> status st \<noteq> ''completed''
                \<and> status st \<noteq> ''failed'')"
  then have nt: "\<And>i. int i < max 1 maxAttempts \<Longrightarrow> non_terminal (getVideoStatus i)"
    by auto
  have "int (nat (max 1 maxAttempts) - 1) < max 1 maxAttempts" by simp
  with ok obtain st where "getVideoStatus (nat (max 1 maxAttempts) - 1) = Fulfilled st"
    by blast
  then have ex: "exhausted (getVideoStatus (nat (max 1 maxAttempts) - 1))
      = Reject ''Video generation timeout''" by simp
  show "settlements (pollVideoStatus getVideoStatus maxAttempts interval)
        = [Reject ''Video generation timeout'']"
    using pollVideoStatus_exhausted(1) [OF nt] ex by simp
  show "last (pollVideoStatus getVideoStatus maxAttempts interval)
        = Reject ''Video generation timeout''"
    using pollVideoStatus_exhausted(2) [OF nt] ex by simp
  show "reads (pollVideoStatus getVideoStatus maxAttempts interval) = nat (max 1 maxAttempts)"
    using pollVideoStatus_exhausted(3) [OF nt] by simp
qed

theorem C9_ceiling_counts_successful_reads_witness:
  "reads (pollVideoStatus (\<lambda>n. Fulfilled (payload ''running'' None)) 60 5000) = 60
   \<and> settlements (pollVideoStatus (\<lambda>n. Fulfilled (payload ''running'' None)) 60 5000)
       = [Reject ''Video generation timeout'']
   \<and> last (pollVideoStatus (\<lambda>n. Fulfilled (payload ''running'' None)) 60 5000)
       = Reject ''Video generation timeout''"
  using C9_ceiling_counts_successful_reads
    [of 60 "\<lambda>n. Fulfilled (payload ''running'' None)" 5000]
  by (simp add: payload_def)

text \<open>
  C10: in \<open>VideoGenerationProgress\<close> a read that ends in a network error or in a
  non-2xx response changes neither \<open>status\<close> nor \<open>isPolling\<close>, calls neither
  \<open>onComplete\<close> nor \<open>onError\<close>, issues no retry and leaves the timer as it is; the
  network error is logged and the non-2xx response is not even that. Nothing counts
  the failures: when every read fails, the reads go on at 0, 2000, 4000, ... ms
  without end and without a notification.
\<close>

theorem C10_component_read_failure_is_ignored:
  assumes "r = FetchRejected \<or> r = NotOk"
  shows "statusState (component_step c (FetchSettled r)) = statusState c
   \<and> isPolling (component_step c (FetchSettled r)) = isPolling c
   \<and> intervalPeriod (component_step c (FetchSettled r)) = intervalPeriod c
   \<and> clock (component_step c (FetchSettled r)) = clock c
   \<and> events (component_step c (FetchSettled r))
       = events c @ (if r = FetchRejected \<and> 0 < fetches_in_flight c then [ConsoleError] else [])
   \<and> fetches (events (component_run (unreachable r n)))
       = map (\<lambda>k. Fetch (2000 * real k)) [0..<Suc n]
   \<and> terminal_callbacks (events (component_run (unreachable r n))) = []
   \<and> statusState (component_run (unreachable r n)) = None
   \<and> intervalPeriod (component_run (unreachable r n)) = Some 2000"
proof -
  have f: "r = FetchRejected \<or> r = NotOk \<or> r = JsonRejected" using assms by blast
  have "statusState (component_step c (FetchSettled r)) = statusState c"
    and "isPolling (component_step c (FetchSettled r)) = isPolling c"
    using component_step_failure [OF f, of c] by simp_all
  moreover have "intervalPeriod (component_step c (FetchSettled r)) = intervalPeriod c"
    and "clock (component_step c (FetchSettled r)) = clock c"
    using component_step_settled_timer [of c r] by simp_all
  moreover have "events (component_step c (FetchSettled r))
       = events c @ (if r = FetchRejected \<and> 0 < fetches_in_flight c then [ConsoleError] else [])"
    using assms by (auto simp: pollStatus_resume_def Let_def)
  ultimately show ?thesis
    using component_run_unreachable [OF f, of n] by simp
qed

theorem C10_component_read_failure_is_ignored_witness:
  "events (component_step mount (FetchSettled FetchRejected))
     = [Fetch 0, SetInterval 2000, ConsoleError]
   \<and> events (component_step mount (FetchSettled NotOk)) = [Fetch 0, SetInterval 2000]
   \<and> isPolling (component_step mount (FetchSettled NotOk))
   \<and> fetches (events (component_run (unreachable NotOk 2))) = [Fetch 0, Fetch 2000, Fetch 4000]
   \<and> terminal_callbacks (events (component_run (unreachable FetchRejected 1000))) = []"
proof -
  have m: "0 < fetches_in_flight mount" "events mount = [Fetch 0, SetInterval 2000]"
    "isPolling mount"
    by (simp_all add: mount_def pollStatus_enter_def)
  have u: "[0..<3] = [0, 1, 2 :: nat]"
    by code_simp
  show ?thesis
    using m
      C10_component_read_failure_is_ignored [of FetchRejected mount 1000]
      C10_component_read_failure_is_ignored [of NotOk mount 2]
    by (simp add: u)
qed

end
